theory Spec2Isabelle
  imports Complex_Main "HOL-Library.AList"
begin

section \<open>Value iteration for finite Markov decision processes\<close>

text \<open>
  A shallow embedding of \<^verbatim>\<open>value_iteration\<close> from \<^verbatim>\<open>src/valit/valit.py\<close>.

  \<^item> Python floats and ints in arithmetic positions are idealised as \<^typ>\<open>real\<close>: rounding,
    NaN and infinities are not represented.
  \<^item> A Python \<^verbatim>\<open>dict\<close> is an association list with distinct keys in insertion order;
    \<^verbatim>\<open>d[k] = v\<close> is \<^const>\<open>AList.update\<close>, which overwrites in place or appends.
  \<^item> The vector returned by \<^verbatim>\<open>probs\<close> is a one-dimensional numpy array, a \<^typ>\<open>real list\<close>.
  \<^item> A raised exception is \<open>Inl\<close>; a returned value is \<open>Inr\<close>. The function returns either
    an error message (a string) or the pair of dictionaries.
  \<^item> Every invocation of the two model functions is recorded in a call log.
\<close>

subsection \<open>Data\<close>

type_synonym ('k, 'v) dict = "('k \<times> 'v) list"

datatype exception = ValueError | TypeError

text \<open>The \<^verbatim>\<open>horizon\<close> argument: a Python int or a Python float.\<close>

datatype number = PyInt int | PyFloat real

datatype ('s, 'a) call = RewardsCall 's 'a | ProbsCall 's 'a

datatype ('s, 'a) returned =
    ErrorString string
  | Result "('s, 'a) dict" "('s, real) dict"

text \<open>The local variables that the loops mutate, and the log of model-function calls.\<close>

record ('s, 'a) locals =
  val_dict :: "('s, real) dict"
  val_action :: "('a, real) dict"
  calls :: "('s, 'a) call list"

subsection \<open>Python and numpy primitives\<close>

fun number_value :: "number \<Rightarrow> real" where
  "number_value (PyInt n) = of_int n"
| "number_value (PyFloat x) = x"

text \<open>\<^verbatim>\<open>int(x)\<close> truncates towards zero.\<close>

fun py_int :: "number \<Rightarrow> int" where
  "py_int (PyInt n) = n"
| "py_int (PyFloat x) = (if 0 \<le> x then \<lfloor>x\<rfloor> else \<lceil>x\<rceil>)"

text \<open>\<^verbatim>\<open>range(n)\<close> accepts an int only; the result is the number of iterations.\<close>

fun py_range :: "number \<Rightarrow> exception + nat" where
  "py_range (PyInt n) = Inr (nat n)"
| "py_range (PyFloat x) = Inl TypeError"

text \<open>
  \<^verbatim>\<open>array * list\<close>: numpy multiplies elementwise, broadcasting an operand of length one,
  and raises \<^verbatim>\<open>ValueError\<close> for any other pair of different lengths.
\<close>

definition broadcast_mul :: "real list \<Rightarrow> real list \<Rightarrow> exception + real list" where
  "broadcast_mul p v =
     (if length p = length v then Inr (map2 (*) p v)
      else if length p = 1 then Inr (map (\<lambda>y. hd p * y) v)
      else if length v = 1 then Inr (map (\<lambda>x. x * hd v) p)
      else Inl ValueError)"

text \<open>The builtin \<^verbatim>\<open>sum\<close>: left to right, starting from 0.\<close>

definition py_sum :: "real list \<Rightarrow> real" where
  "py_sum xs = foldl (+) 0 xs"

text \<open>
  The builtin \<^verbatim>\<open>max\<close> over an iterable keeps the first maximal item and raises
  \<^verbatim>\<open>ValueError\<close> on an empty iterable.
\<close>

fun py_max :: "real list \<Rightarrow> exception + real" where
  "py_max [] = Inl ValueError"
| "py_max (x # xs) = Inr (fold (\<lambda>y m. if m < y then y else m) xs x)"

text \<open>
  \<^verbatim>\<open>max(d, key = d.get)\<close> iterates over the keys of \<open>d\<close> in insertion order and compares the
  values stored under them; keys of a dictionary are unique, so \<^verbatim>\<open>d.get(k)\<close> is the value
  paired with \<open>k\<close>.
\<close>

fun py_max_key :: "('a, real) dict \<Rightarrow> exception + 'a" where
  "py_max_key [] = Inl ValueError"
| "py_max_key (p # ps) = Inr (fst (fold (\<lambda>q m. if snd m < snd q then q else m) ps p))"

text \<open>\<^verbatim>\<open>dict(zip(states, [0]*len(states)))\<close>\<close>

definition zero_dict :: "'s list \<Rightarrow> ('s, real) dict" where
  "zero_dict states = AList.updates states (replicate (length states) 0) []"

subsection \<open>The loops of \<^verbatim>\<open>value_iteration\<close>\<close>

text \<open>
  The right-hand side of lines 54 and 60:
  \<^verbatim>\<open>rewards(s, a) + discount * sum(probs(s, a) * list(val_dict.values()))\<close>
\<close>

definition q_value ::
  "('s \<Rightarrow> 'a \<Rightarrow> real list) \<Rightarrow> ('s \<Rightarrow> 'a \<Rightarrow> real) \<Rightarrow> real \<Rightarrow> ('s, real) dict \<Rightarrow> 's \<Rightarrow> 'a
    \<Rightarrow> exception + real" where
  "q_value probs rewards discount vd s a =
     (case broadcast_mul (probs s a) (map snd vd) of
        Inl e \<Rightarrow> Inl e
      | Inr xs \<Rightarrow> Inr (rewards s a + discount * py_sum xs))"

text \<open>\<^verbatim>\<open>for a in actions: val_action[a] = ...\<close> (lines 50-54 and 59-60)\<close>

fun action_loop ::
  "('s \<Rightarrow> 'a \<Rightarrow> real list) \<Rightarrow> ('s \<Rightarrow> 'a \<Rightarrow> real) \<Rightarrow> real \<Rightarrow> 's \<Rightarrow> 'a list
    \<Rightarrow> ('s, 'a) locals \<Rightarrow> exception + ('s, 'a) locals" where
  "action_loop probs rewards discount s [] l = Inr l"
| "action_loop probs rewards discount s (a # as) l =
     (case q_value probs rewards discount (val_dict l) s a of
        Inl e \<Rightarrow> Inl e
      | Inr q \<Rightarrow>
          action_loop probs rewards discount s as
            (l\<lparr>val_action := AList.update a q (val_action l),
               calls := calls l @ [RewardsCall s a, ProbsCall s a]\<rparr>))"

text \<open>
  One sweep, \<^verbatim>\<open>for s in states:\<close> (lines 49-55). The assignment
  \<^verbatim>\<open>val_dict[s] = float(max(val_action.values()))\<close> writes into the dictionary that the
  following states of the same sweep read.
\<close>

fun state_loop ::
  "('s \<Rightarrow> 'a \<Rightarrow> real list) \<Rightarrow> ('s \<Rightarrow> 'a \<Rightarrow> real) \<Rightarrow> real \<Rightarrow> 'a list \<Rightarrow> 's list
    \<Rightarrow> ('s, 'a) locals \<Rightarrow> exception + ('s, 'a) locals" where
  "state_loop probs rewards discount actions [] l = Inr l"
| "state_loop probs rewards discount actions (s # ss) l =
     (case action_loop probs rewards discount s actions l of
        Inl e \<Rightarrow> Inl e
      | Inr l' \<Rightarrow>
          (case py_max (map snd (val_action l')) of
             Inl e \<Rightarrow> Inl e
           | Inr m \<Rightarrow>
               state_loop probs rewards discount actions ss
                 (l'\<lparr>val_dict := AList.update s m (val_dict l')\<rparr>)))"

text \<open>
  \<^verbatim>\<open>for k in range(horizon):\<close> (lines 47-55). The statement \<^verbatim>\<open>k = k + 1\<close> has no effect
  on the iteration and nothing reads \<open>k\<close>.
\<close>

fun sweeps ::
  "('s \<Rightarrow> 'a \<Rightarrow> real list) \<Rightarrow> ('s \<Rightarrow> 'a \<Rightarrow> real) \<Rightarrow> real \<Rightarrow> 'a list \<Rightarrow> 's list
    \<Rightarrow> nat \<Rightarrow> ('s, 'a) locals \<Rightarrow> exception + ('s, 'a) locals" where
  "sweeps probs rewards discount actions states 0 l = Inr l"
| "sweeps probs rewards discount actions states (Suc n) l =
     (case state_loop probs rewards discount actions states l of
        Inl e \<Rightarrow> Inl e
      | Inr l' \<Rightarrow> sweeps probs rewards discount actions states n l')"

text \<open>Policy extraction (lines 57-61).\<close>

fun policy_loop ::
  "('s \<Rightarrow> 'a \<Rightarrow> real list) \<Rightarrow> ('s \<Rightarrow> 'a \<Rightarrow> real) \<Rightarrow> real \<Rightarrow> 'a list \<Rightarrow> 's list
    \<Rightarrow> ('s, 'a) locals \<Rightarrow> ('s, 'a) dict \<Rightarrow> exception + (('s, 'a) locals \<times> ('s, 'a) dict)" where
  "policy_loop probs rewards discount actions [] l policy_dict = Inr (l, policy_dict)"
| "policy_loop probs rewards discount actions (s # ss) l policy_dict =
     (case action_loop probs rewards discount s actions l of
        Inl e \<Rightarrow> Inl e
      | Inr l' \<Rightarrow>
          (case py_max_key (val_action l') of
             Inl e \<Rightarrow> Inl e
           | Inr a \<Rightarrow>
               policy_loop probs rewards discount actions ss l'
                 (AList.update s a policy_dict)))"

definition discount_message :: string where
  "discount_message = ''Error: the discount must be between 0 and 1''"

definition horizon_message :: string where
  "horizon_message = ''Error: the horizon must be a positive integer''"

text \<open>
  The whole function. The result is an exception, or the returned value together with the
  log of the model-function calls made.
\<close>

definition value_iteration ::
  "'s list \<Rightarrow> 'a list \<Rightarrow> ('s \<Rightarrow> 'a \<Rightarrow> real list) \<Rightarrow> ('s \<Rightarrow> 'a \<Rightarrow> real) \<Rightarrow> number \<Rightarrow> real
    \<Rightarrow> exception + (('s, 'a) returned \<times> ('s, 'a) call list)" where
  "value_iteration states actions probs rewards horizon discount =
     (if discount > 1 \<or> discount < 0 then Inr (ErrorString discount_message, [])
      else if number_value horizon < 0 \<or> of_int (py_int horizon) \<noteq> number_value horizon
        then Inr (ErrorString horizon_message, [])
      else
        (case py_range horizon of
           Inl e \<Rightarrow> Inl e
         | Inr n \<Rightarrow>
             (case sweeps probs rewards discount actions states n
                     \<lparr>val_dict = zero_dict states, val_action = [], calls = []\<rparr> of
                Inl e \<Rightarrow> Inl e
              | Inr l \<Rightarrow>
                  (case policy_loop probs rewards discount actions states l [] of
                     Inl e \<Rightarrow> Inl e
                   | Inr (l', policy_dict) \<Rightarrow>
                       Inr (Result policy_dict (val_dict l'), calls l')))))"

text \<open>The outcome without the call log.\<close>

definition outcome ::
  "exception + (('s, 'a) returned \<times> ('s, 'a) call list) \<Rightarrow> exception + ('s, 'a) returned" where
  "outcome r = map_sum id fst r"

subsection \<open>Example processes\<close>

text \<open>
  The two-state chain: from \<open>S0\<close> the only action leads to \<open>S1\<close> with reward 1, from \<open>S1\<close>
  it leads back to \<open>S0\<close> with reward 0.
\<close>

datatype chain_state = S0 | S1

datatype chain_action = A0

fun chain_probs :: "chain_state \<Rightarrow> chain_action \<Rightarrow> real list" where
  "chain_probs S0 a = [0, 1]"
| "chain_probs S1 a = [1, 0]"

fun chain_rewards :: "chain_state \<Rightarrow> chain_action \<Rightarrow> real" where
  "chain_rewards S0 a = 1"
| "chain_rewards S1 a = 0"

text \<open>
  A second process on the same two states, with two actions whose rewards tie in \<open>S0\<close>.
\<close>

datatype tie_action = Left | Right

fun tie_probs :: "chain_state \<Rightarrow> tie_action \<Rightarrow> real list" where
  "tie_probs s a = [1/2, 1/2]"

fun tie_rewards :: "chain_state \<Rightarrow> tie_action \<Rightarrow> real" where
  "tie_rewards S0 a = 1"
| "tie_rewards S1 Left = 2"
| "tie_rewards S1 Right = 1"

text \<open>Transition vectors of the right length whose entries sum to one half.\<close>

fun half_probs :: "chain_state \<Rightarrow> chain_action \<Rightarrow> real list" where
  "half_probs s a = [1/4, 1/4]"

subsection \<open>Auxiliary notions for the proofs\<close>

text \<open>
  The keys of a dictionary with keys \<open>ks\<close> after assigning to the keys \<open>xs\<close> in turn: a
  new key goes to the end, an existing key keeps its place.
\<close>

definition key_order :: "'k list \<Rightarrow> 'k list \<Rightarrow> 'k list" where
  "key_order ks xs = fold (\<lambda>k ks. if k \<in> set ks then ks else ks @ [k]) xs ks"

text \<open>
  What the loops maintain: the keys of \<^verbatim>\<open>val_dict\<close> are the states in order of first
  occurrence, and \<^verbatim>\<open>val_action\<close> is empty or has the actions as keys in that order.
\<close>

definition loop_inv :: "'a list \<Rightarrow> 's list \<Rightarrow> ('s, 'a) locals \<Rightarrow> bool" where
  "loop_inv A S l \<longleftrightarrow>
     map fst (val_dict l) = key_order [] S \<and>
     (val_action l = [] \<or> map fst (val_action l) = key_order [] A)"

section \<open>Properties\<close>

lemmas eval_simps =
  value_iteration_def outcome_def zero_dict_def q_value_def broadcast_mul_def py_sum_def
  discount_message_def horizon_message_def

subsection \<open>Argument checks\<close>

text \<open>
  Claim C4, as stated, fails: with discount \<open>3/2\<close> the call does not fail with an error. It
  returns normally, and what it returns is a string, the error message.
\<close>

theorem invalid_discount_counterexample:
  "\<not> isl (value_iteration [S0, S1] [A0] chain_probs chain_rewards (PyInt 2) (3/2))
   \<and> value_iteration [S0, S1] [A0] chain_probs chain_rewards (PyInt 2) (3/2)
     = Inr (ErrorString ''Error: the discount must be between 0 and 1'', [])"
  by (simp add: value_iteration_def discount_message_def)

text \<open>
  Claim C4, amended. A discount above 1 or below 0 makes \<^verbatim>\<open>value_iteration\<close> return at its
  first check: it raises nothing and returns, as an ordinary return value, the string
  \<^verbatim>\<open>Error: the discount must be between 0 and 1\<close>, whatever the other arguments are. No
  dictionaries are returned and the call log is empty, so neither \<^verbatim>\<open>probs\<close> nor \<^verbatim>\<open>rewards\<close>
  has been invoked.
\<close>

theorem invalid_discount:
  "discount > 1 \<or> discount < 0 \<Longrightarrow>
   value_iteration states actions probs rewards horizon discount
     = Inr (ErrorString ''Error: the discount must be between 0 and 1'', [])"
  by (simp add: value_iteration_def discount_message_def)

theorem invalid_discount_witness:
  "((3/2 :: real) > 1 \<or> (3/2 :: real) < 0) \<and>
   value_iteration [S0, S1] [A0] chain_probs chain_rewards (PyInt 2) (3/2)
     = Inr (ErrorString ''Error: the discount must be between 0 and 1'', [])"
  using invalid_discount [of "3/2" "[S0, S1]" "[A0]" chain_probs chain_rewards "PyInt 2"]
  by simp

lemma trunc_neq_iff: "0 \<le> x \<Longrightarrow> (of_int (py_int (PyFloat x)) \<noteq> x) = (x \<notin> \<int>)"
  by (auto simp: Ints_def)

text \<open>
  Claim C5, as stated, fails: with horizon \<open>-1\<close> the call does not fail with an error. It
  returns normally, and what it returns is a string, the error message.
\<close>

theorem invalid_horizon_counterexample:
  "\<not> isl (value_iteration [S0, S1] [A0] chain_probs chain_rewards (PyInt (- 1)) 1)
   \<and> value_iteration [S0, S1] [A0] chain_probs chain_rewards (PyInt (- 1)) 1
     = Inr (ErrorString ''Error: the horizon must be a positive integer'', [])"
  by (simp add: value_iteration_def horizon_message_def)

text \<open>
  Claim C5, amended. A horizon that is a negative int, a negative float or a float with a
  fractional part makes \<^verbatim>\<open>value_iteration\<close> raise nothing and return, as an ordinary return
  value, an error string and no dictionaries: the horizon message, or the discount message
  when the discount is invalid too (that check comes first). No model function has been
  invoked.
\<close>

theorem invalid_horizon:
  assumes "(horizon = PyInt n \<and> n < 0) \<or> (horizon = PyFloat x \<and> (x < 0 \<or> x \<notin> \<int>))"
  shows "value_iteration states actions probs rewards horizon discount
     = Inr (ErrorString (if discount > 1 \<or> discount < 0
          then ''Error: the discount must be between 0 and 1''
          else ''Error: the horizon must be a positive integer''), [])"
  using assms trunc_neq_iff [of x]
  by (auto simp: value_iteration_def discount_message_def horizon_message_def
           simp del: py_int.simps)

theorem invalid_horizon_witness:
  "value_iteration [S0, S1] [A0] chain_probs chain_rewards (PyInt (- 1)) 1
     = Inr (ErrorString ''Error: the horizon must be a positive integer'', [])
   \<and> value_iteration [S0, S1] [A0] chain_probs chain_rewards (PyFloat (5/2)) 1
     = Inr (ErrorString ''Error: the horizon must be a positive integer'', [])"
proof -
  have "(5/2 :: real) \<notin> \<int>"
  proof
    assume "(5/2 :: real) \<in> \<int>"
    then obtain k :: int where k: "(5/2 :: real) = of_int k" by (auto simp: Ints_def)
    then have "of_int (2 * k) = (of_int 5 :: real)" by simp
    then have "2 * k = 5" by (simp only: of_int_eq_iff)
    then show False by presburger
  qed
  then show ?thesis
    using invalid_horizon [of "PyInt (- 1)" "- 1" 0 "[S0, S1]" "[A0]" chain_probs chain_rewards 1]
          invalid_horizon [of "PyFloat (5/2)" 0 "5/2" "[S0, S1]" "[A0]" chain_probs chain_rewards 1]
    by simp
qed

subsection \<open>Empty enumerations\<close>

lemma sweeps_no_states [simp]: "sweeps P R d A [] n l = Inr l"
  by (induction n) auto

text \<open>
  Claim C2, as stated, fails: with an empty list of states the function returns two empty
  dictionaries.
\<close>

theorem empty_states_counterexample:
  "value_iteration ([] :: chain_state list) [A0] chain_probs chain_rewards (PyInt 2) 1
     = Inr (Result [] [], [])"
  by (simp add: value_iteration_def zero_dict_def)

text \<open>
  Claim C2, amended. With a valid discount and a non-negative int horizon: when \<open>states\<close> is
  empty the function returns an empty policy and an empty value function without invoking
  a model function; when \<open>actions\<close> is empty and \<open>states\<close> is not, the maximum over an empty
  dictionary raises \<^verbatim>\<open>ValueError\<close> and nothing is returned.
\<close>

theorem empty_states_actions:
  assumes "0 \<le> discount" "discount \<le> 1" "0 \<le> n"
  shows "value_iteration [] actions probs rewards (PyInt n) discount = Inr (Result [] [], [])
       \<and> value_iteration (s # ss) [] probs rewards (PyInt n) discount = Inl ValueError"
proof
  show "value_iteration [] actions probs rewards (PyInt n) discount = Inr (Result [] [], [])"
    using assms by (simp add: value_iteration_def zero_dict_def)
  show "value_iteration (s # ss) [] probs rewards (PyInt n) discount = Inl ValueError"
    using assms by (cases "nat n") (simp_all add: value_iteration_def zero_dict_def)
qed

theorem empty_states_actions_witness:
  "value_iteration [] [A0] chain_probs chain_rewards (PyInt 3) (1/2) = Inr (Result [] [], [])
   \<and> value_iteration [S0, S1] [] chain_probs chain_rewards (PyInt 3) (1/2) = Inl ValueError"
  using empty_states_actions [of "1/2" 3 "[A0]" chain_probs chain_rewards S0 "[S1]"]
  by simp

subsection \<open>Sweep semantics\<close>

text \<open>
  Claim C1. On the two-state chain with discount 1 and horizon 2 the function returns the
  value function \<open>{S0: 2, S1: 2}\<close>: within a sweep the value written for \<open>S0\<close> is read when
  \<open>S1\<close> is backed up. A synchronous sweep would give \<open>{S0: 1, S1: 1}\<close>, the largest reward
  that two actions can collect.
\<close>

theorem chain_in_place:
  "outcome (value_iteration [S0, S1] [A0] chain_probs chain_rewards (PyInt 2) 1)
     = Inr (Result [(S0, A0), (S1, A0)] [(S0, 2), (S1, 2)])"
  by (simp add: eval_simps numeral_2_eq_2)

subsection \<open>Dictionaries and key order\<close>

lemma key_order_Nil [simp]: "key_order ks [] = ks"
  by (simp add: key_order_def)

lemma key_order_Cons [simp]:
  "key_order ks (x # xs) = key_order (if x \<in> set ks then ks else ks @ [x]) xs"
  by (simp add: key_order_def)

lemma key_order_append: "key_order ks (xs @ ys) = key_order (key_order ks xs) ys"
  by (simp add: key_order_def)

lemma set_key_order [simp]: "set (key_order ks xs) = set ks \<union> set xs"
  by (induction xs arbitrary: ks) auto

lemma distinct_key_order: "distinct ks \<Longrightarrow> distinct (key_order ks xs)"
  by (induction xs arbitrary: ks) auto

lemma key_order_absorb: "set xs \<subseteq> set ks \<Longrightarrow> key_order ks xs = ks"
  by (induction xs arbitrary: ks) auto

lemma key_order_first_occurrences: "key_order [] xs = rev (remdups (rev xs))"
proof (induction xs rule: rev_induct)
  case Nil
  show ?case by simp
next
  case (snoc x xs)
  then show ?case by (simp add: key_order_append)
qed

lemma key_order_distinct: "distinct (ks @ xs) \<Longrightarrow> key_order ks xs = ks @ xs"
  by (induction xs arbitrary: ks) auto

lemma find_append_if:
  "List.find P (xs @ ys) = (case List.find P xs of Some x \<Rightarrow> Some x | None \<Rightarrow> List.find P ys)"
  by (induction xs) auto

lemma find_key_order:
  "List.find P (key_order ks xs) =
     (case List.find P ks of Some x \<Rightarrow> Some x | None \<Rightarrow> List.find P xs)"
proof (induction xs arbitrary: ks)
  case Nil
  show ?case by (simp split: option.split)
next
  case (Cons x xs)
  show ?case
  proof (cases "x \<in> set ks")
    case True
    then have "List.find P ks = None \<Longrightarrow> \<not> P x"
      by (auto simp: find_None_iff)
    with True Cons show ?thesis by (auto split: option.split)
  next
    case False
    with Cons show ?thesis by (auto simp: find_append_if split: option.split)
  qed
qed

lemma keys_update: "map fst (AList.update k v d) = key_order (map fst d) [k]"
  by (simp add: update_keys)

lemma keys_fold_update:
  "map fst (fold (\<lambda>a. AList.update a (f a)) xs d) = key_order (map fst d) xs"
  by (induction xs arbitrary: d) (simp_all add: update_keys)

lemma map_of_fold_update:
  "map_of (fold (\<lambda>a. AList.update a (f a)) xs d) k =
     (if k \<in> set xs then Some (f k) else map_of d k)"
  by (induction xs arbitrary: d) (auto simp: update_conv')

lemma length_key_order: "length (key_order [] xs) = card (set xs)"
  by (simp add: key_order_first_occurrences length_remdups_card_conv [symmetric] del: set_rev)
     (metis length_remdups_card_conv set_rev)

lemma set_update_subset: "set (AList.update k v d) \<subseteq> insert (k, v) (set d)"
  by (induction d) auto

lemma keys_updates:
  "length ks = length vs \<Longrightarrow> map fst (AList.updates ks vs d) = key_order (map fst d) ks"
  by (induction ks vs arbitrary: d rule: list_induct2) (simp_all add: update_keys)

lemma values_updates:
  "length ks = length vs \<Longrightarrow> snd ` set (AList.updates ks vs d) \<subseteq> snd ` set d \<union> set vs"
proof (induction ks vs arbitrary: d rule: list_induct2)
  case Nil
  show ?case by simp
next
  case (Cons k ks v vs)
  have "snd ` set (AList.update k v d) \<subseteq> insert v (snd ` set d)"
    using set_update_subset [of k v d] by force
  with Cons.IH [of "AList.update k v d"] show ?case by auto
qed

lemma dict_by_keys:
  "\<forall>p\<in>set D. snd p = f (fst p) \<Longrightarrow> D = map (\<lambda>k. (k, f k)) (map fst D)"
  by (induction D) auto

lemma keys_zero_dict: "map fst (zero_dict S) = key_order [] S"
  by (simp add: zero_dict_def keys_updates)

lemma values_zero_dict: "p \<in> set (zero_dict S) \<Longrightarrow> snd p = 0"
  using values_updates [of S "replicate (length S) 0" "[]"]
  by (auto simp: zero_dict_def)

lemma zero_dict_eq: "zero_dict S = map (\<lambda>s. (s, 0)) (key_order [] S)"
  using dict_by_keys [of "zero_dict S" "\<lambda>s. 0"] values_zero_dict [of _ S]
  by (simp add: keys_zero_dict)


subsection \<open>What the loops compute\<close>

lemma q_value_exception: "q_value P R d vd s a = Inl e \<Longrightarrow> e = ValueError"
  by (auto simp: q_value_def broadcast_mul_def split: if_splits sum.splits)

lemma action_loop_char:
  "action_loop P R d s A l =
     (if \<forall>a\<in>set A. \<not> isl (q_value P R d (val_dict l) s a)
      then Inr (l\<lparr>val_action :=
                    fold (\<lambda>a. AList.update a (projr (q_value P R d (val_dict l) s a))) A
                      (val_action l),
                  calls := calls l @ concat (map (\<lambda>a. [RewardsCall s a, ProbsCall s a]) A)\<rparr>)
      else Inl ValueError)"
proof (induction A arbitrary: l)
  case Nil
  show ?case by simp
next
  case (Cons a A)
  show ?case
  proof (cases "q_value P R d (val_dict l) s a")
    case (Inl e)
    then show ?thesis using q_value_exception [OF Inl] by simp
  next
    case (Inr q)
    then show ?thesis by (simp add: Cons)
  qed
qed

lemma loop_inv_init: "loop_inv A S \<lparr>val_dict = zero_dict S, val_action = [], calls = []\<rparr>"
  by (simp add: loop_inv_def keys_zero_dict)

lemma action_loop_result:
  assumes "action_loop P R d s A l = Inr l'" and "loop_inv A S l"
  shows "val_dict l' = val_dict l"
    and "map fst (val_action l') = key_order [] A"
    and "loop_inv A S l'"
    and "\<forall>a\<in>set A. \<not> isl (q_value P R d (val_dict l) s a)"
    and "\<forall>p\<in>set (val_action l'). snd p = projr (q_value P R d (val_dict l) s (fst p))"
proof -
  let ?f = "\<lambda>a. projr (q_value P R d (val_dict l) s a)"
  from assms(1) have ok: "\<forall>a\<in>set A. \<not> isl (q_value P R d (val_dict l) s a)"
    by (simp add: action_loop_char split: if_splits)
  with assms(1) have l': "l' = l\<lparr>val_action := fold (\<lambda>a. AList.update a (?f a)) A (val_action l),
      calls := calls l @ concat (map (\<lambda>a. [RewardsCall s a, ProbsCall s a]) A)\<rparr>"
    by (simp add: action_loop_char)
  show "val_dict l' = val_dict l" by (simp add: l')
  show keys: "map fst (val_action l') = key_order [] A"
    using assms(2) by (auto simp: l' keys_fold_update loop_inv_def key_order_absorb)
  show "loop_inv A S l'"
    using assms(2) keys by (simp add: loop_inv_def l')
  show "\<forall>a\<in>set A. \<not> isl (q_value P R d (val_dict l) s a)" by (rule ok)
  have dist: "distinct (map fst (val_action l'))"
    by (simp add: keys distinct_key_order)
  show "\<forall>p\<in>set (val_action l'). snd p = ?f (fst p)"
  proof
    fix p assume p: "p \<in> set (val_action l')"
    then have "fst p \<in> set (map fst (val_action l'))" by simp
    then have in_A: "fst p \<in> set A" by (simp only: keys set_key_order) simp
    from p dist have "map_of (val_action l') (fst p) = Some (snd p)" by simp
    then show "snd p = ?f (fst p)"
      using in_A by (simp add: l' map_of_fold_update)
  qed
qed

lemma state_loop_inv:
  "state_loop P R d A S' l = Inr l' \<Longrightarrow> set S' \<subseteq> set S \<Longrightarrow> loop_inv A S l \<Longrightarrow> loop_inv A S l'"
proof (induction S' arbitrary: l)
  case Nil
  then show ?case by simp
next
  case (Cons s S')
  from Cons.prems(1) obtain l1 m where
    l1: "action_loop P R d s A l = Inr l1" and
    rest: "state_loop P R d A S' (l1\<lparr>val_dict := AList.update s m (val_dict l1)\<rparr>) = Inr l'"
    by (auto split: sum.splits)
  have inv1: "loop_inv A S l1" using action_loop_result(3) [OF l1 Cons.prems(3)] .
  have "s \<in> set (map fst (val_dict l1))"
    using inv1 Cons.prems(2) by (simp add: loop_inv_def)
  then have "loop_inv A S (l1\<lparr>val_dict := AList.update s m (val_dict l1)\<rparr>)"
    using inv1 Cons.prems(2) by (simp add: loop_inv_def update_keys)
  with Cons.IH [OF rest] Cons.prems(2) show ?case by simp
qed

lemma sweeps_inv:
  "sweeps P R d A S n l = Inr l' \<Longrightarrow> loop_inv A S l \<Longrightarrow> loop_inv A S l'"
proof (induction n arbitrary: l)
  case 0
  then show ?case by simp
next
  case (Suc n)
  from Suc.prems(1) obtain l1 where
    l1: "state_loop P R d A S l = Inr l1" and rest: "sweeps P R d A S n l1 = Inr l'"
    by (auto split: sum.splits)
  from state_loop_inv [OF l1 _ Suc.prems(2)] have "loop_inv A S l1" by simp
  with Suc.IH [OF rest] show ?case .
qed

lemma fold_first_max:
  fixes m :: "'a \<times> real"
  assumes "\<forall>y\<in>set ys. snd y < snd m" and "\<forall>z\<in>set zs. snd z \<le> snd m"
  shows "\<exists>ys' zs'. ys @ m # zs @ ps = ys' @ fold (\<lambda>q m. if snd m < snd q then q else m) ps m # zs'
           \<and> (\<forall>y\<in>set ys'. snd y < snd (fold (\<lambda>q m. if snd m < snd q then q else m) ps m))
           \<and> (\<forall>z\<in>set zs'. snd z \<le> snd (fold (\<lambda>q m. if snd m < snd q then q else m) ps m))"
  using assms
proof (induction ps arbitrary: ys m zs)
  case Nil
  then show ?case by auto
next
  case (Cons q ps)
  show ?case
  proof (cases "snd m < snd q")
    case True
    have "\<forall>y\<in>set (ys @ m # zs). snd y < snd q"
      using Cons.prems True by fastforce
    from Cons.IH [OF this, of "[]"] True show ?thesis by simp
  next
    case False
    have "\<forall>z\<in>set (zs @ [q]). snd z \<le> snd m"
      using Cons.prems False by auto
    from Cons.IH [OF Cons.prems(1) this] False show ?thesis by simp
  qed
qed

lemma py_max_key_first:
  assumes "D \<noteq> []" and vals: "\<forall>p\<in>set D. snd p = f (fst p)"
  shows "\<exists>a. py_max_key D = Inr a \<and>
             List.find (\<lambda>a. \<forall>b\<in>set (map fst D). f b \<le> f a) (map fst D) = Some a"
proof -
  from assms(1) obtain p ps where D: "D = p # ps" by (cases D) auto
  define r where "r = fold (\<lambda>q m. if snd m < snd q then q else m) ps p"
  from fold_first_max [of "[]" p "[]" ps] obtain ys zs where
    dec: "D = ys @ r # zs" and lt: "\<forall>y\<in>set ys. snd y < snd r" and le: "\<forall>z\<in>set zs. snd z \<le> snd r"
    unfolding r_def D by auto
  let ?P = "\<lambda>a. \<forall>b\<in>set (map fst D). f b \<le> f a"
  have fr: "f (fst r) = snd r" using vals dec by simp
  have none: "List.find ?P (map fst ys) = None"
  proof -
    have "\<not> ?P (fst y)" if "y \<in> set ys" for y
    proof -
      from that have "f (fst y) = snd y" using vals dec by simp
      with lt that fr have "f (fst y) < f (fst r)" by simp
      moreover have "fst r \<in> set (map fst D)" by (simp add: dec)
      ultimately show ?thesis by (metis not_le)
    qed
    then show ?thesis by (auto simp: find_None_iff)
  qed
  have "?P (fst r)"
  proof
    fix b assume "b \<in> set (map fst D)"
    then obtain q where q: "q \<in> set D" "b = fst q" by auto
    then have "snd q \<le> snd r" using lt le dec by (auto intro: less_imp_le)
    moreover have "f b = snd q" using vals q by simp
    ultimately show "f b \<le> f (fst r)" using fr by simp
  qed
  then have "List.find ?P (map fst D) = Some (fst r)"
    using none by (simp add: dec find_append_if)
  moreover have "py_max_key D = Inr (fst r)" by (simp add: D r_def)
  ultimately show ?thesis by simp
qed

lemma policy_loop_result:
  assumes "policy_loop P R d A S' l pol = Inr (l', pol')" and "loop_inv A S l"
  shows "val_dict l' = val_dict l
       \<and> map fst pol' = key_order (map fst pol) S'
       \<and> (\<forall>s\<in>set S'. \<forall>a\<in>set A. \<not> isl (q_value P R d (val_dict l) s a))
       \<and> (\<forall>s. map_of pol' s =
            (if s \<in> set S'
             then List.find (\<lambda>a. \<forall>b\<in>set A. projr (q_value P R d (val_dict l) s b)
                                              \<le> projr (q_value P R d (val_dict l) s a)) A
             else map_of pol s))"
  using assms
proof (induction S' arbitrary: l pol)
  case Nil
  then show ?case by simp
next
  case (Cons s S')
  let ?f = "\<lambda>s a. projr (q_value P R d (val_dict l) s a)"
  from Cons.prems(1) obtain l1 a where
    l1: "action_loop P R d s A l = Inr l1" and
    a: "py_max_key (val_action l1) = Inr a" and
    rest: "policy_loop P R d A S' l1 (AList.update s a pol) = Inr (l', pol')"
    by (auto split: sum.splits)
  note al = action_loop_result [OF l1 Cons.prems(2)]
  have vd: "val_dict l1 = val_dict l" by (rule al(1))
  note IH = Cons.IH [OF rest al(3), unfolded vd]
  have ne: "val_action l1 \<noteq> []" using a by auto
  from py_max_key_first [OF ne al(5)] a
  have "List.find (\<lambda>a. \<forall>b\<in>set (map fst (val_action l1)). ?f s b \<le> ?f s a)
          (map fst (val_action l1)) = Some a"
    by simp
  then have first: "List.find (\<lambda>a. \<forall>b\<in>set A. ?f s b \<le> ?f s a) A = Some a"
    by (simp add: al(2) find_key_order)
  have "val_dict l' = val_dict l" using IH by simp
  moreover have "map fst pol' = key_order (map fst pol) (s # S')"
    using IH by (simp add: update_keys)
  moreover have "\<forall>s'\<in>set (s # S'). \<forall>a\<in>set A. \<not> isl (q_value P R d (val_dict l) s' a)"
    using IH al(4) by simp
  moreover have "map_of pol' s' =
      (if s' \<in> set (s # S') then List.find (\<lambda>a. \<forall>b\<in>set A. ?f s' b \<le> ?f s' a) A
       else map_of pol s')" for s'
    using IH first by (simp add: update_conv')
  ultimately show ?case by blast
qed

lemma value_iteration_Result:
  assumes "outcome (value_iteration S A P R h d) = Inr (Result pol vd)"
  obtains n l l' where "h = PyInt n" and "0 \<le> n" and "0 \<le> d" and "d \<le> 1"
    and "sweeps P R d A S (nat n) \<lparr>val_dict = zero_dict S, val_action = [], calls = []\<rparr> = Inr l"
    and "policy_loop P R d A S l [] = Inr (l', pol)"
    and "vd = val_dict l'"
proof -
  from assms have d: "0 \<le> d" "d \<le> 1"
    by (auto simp: outcome_def value_iteration_def split: if_splits)
  from assms d obtain n where h: "h = PyInt n"
    by (cases h) (auto simp: outcome_def value_iteration_def split: if_splits)
  from assms d h have n: "0 \<le> n"
    by (auto simp: outcome_def value_iteration_def split: if_splits)
  from assms d h n obtain l l' where
    "sweeps P R d A S (nat n) \<lparr>val_dict = zero_dict S, val_action = [], calls = []\<rparr> = Inr l"
    "policy_loop P R d A S l [] = Inr (l', pol)" "vd = val_dict l'"
    by (auto simp: outcome_def value_iteration_def split: sum.splits)
  with that d h n show thesis by blast
qed


subsection \<open>Dependence on the model functions\<close>

lemma action_loop_cong:
  "\<forall>a\<in>set A. P s a = P' s a \<and> R s a = R' s a \<Longrightarrow>
   action_loop P R d s A l = action_loop P' R' d s A l"
  by (induction A arbitrary: l) (simp_all add: q_value_def split: sum.split)

lemma state_loop_cong:
  "\<forall>s\<in>set S. \<forall>a\<in>set A. P s a = P' s a \<and> R s a = R' s a \<Longrightarrow>
   state_loop P R d A S l = state_loop P' R' d A S l"
proof (induction S arbitrary: l)
  case Nil
  show ?case by simp
next
  case (Cons s S)
  then have "action_loop P R d s A l = action_loop P' R' d s A l"
    by (intro action_loop_cong) simp
  with Cons show ?case by (simp split: sum.split)
qed

lemma sweeps_cong:
  "\<forall>s\<in>set S. \<forall>a\<in>set A. P s a = P' s a \<and> R s a = R' s a \<Longrightarrow>
   sweeps P R d A S n l = sweeps P' R' d A S n l"
  by (induction n arbitrary: l) (simp_all add: state_loop_cong [of S A P P' R R'] split: sum.split)

lemma policy_loop_cong:
  "\<forall>s\<in>set S. \<forall>a\<in>set A. P s a = P' s a \<and> R s a = R' s a \<Longrightarrow>
   policy_loop P R d A S l pol = policy_loop P' R' d A S l pol"
proof (induction S arbitrary: l pol)
  case Nil
  show ?case by simp
next
  case (Cons s S)
  then have "action_loop P R d s A l = action_loop P' R' d s A l"
    by (intro action_loop_cong) simp
  with Cons show ?case by (simp split: sum.split)
qed


text \<open>
  Claim C8 (two invocations on the same input give identical outputs) is not stated as a
  theorem: \<^const>\<open>value_iteration\<close> is a function of its arguments, so the equality of two
  evaluations is reflexivity, and what could make two runs of the Python differ (the
  iteration order of dictionaries, the bits of the floats, the purity of the model
  functions) is fixed by the embedding. The lemma below records only that the two model
  functions matter through their values on the given states and actions.
\<close>

lemma value_iteration_cong:
  assumes "\<forall>s\<in>set states. \<forall>a\<in>set actions. probs s a = probs' s a \<and> rewards s a = rewards' s a"
  shows "value_iteration states actions probs rewards horizon discount
       = value_iteration states actions probs' rewards' horizon discount"
  unfolding value_iteration_def
  by (simp add: sweeps_cong [OF assms] policy_loop_cong [OF assms] split: sum.split)

subsection \<open>Shape of the result\<close>

lemma chain_horizon_1:
  "outcome (value_iteration [S0, S1] [A0] chain_probs chain_rewards (PyInt 1) 1)
     = Inr (Result [(S0, A0), (S1, A0)] [(S0, 1), (S1, 1)])"
  by (simp add: eval_simps)

lemma tie_horizon_1:
  "outcome (value_iteration [S0, S1] [Right, Left] tie_probs tie_rewards (PyInt 1) 1)
     = Inr (Result [(S0, Right), (S1, Left)] [(S0, 1), (S1, 5/2)])"
  by (simp add: eval_simps)

text \<open>
  Claim C10. When the function returns its two dictionaries, the keys of the value function
  and the keys of the policy are the input states in enumeration order (each state at its
  first occurrence; for distinct states this is the list \<open>states\<close> itself), and every
  action in the policy is one of the input actions.
\<close>

theorem result_keys:
  assumes "outcome (value_iteration states actions probs rewards horizon discount)
             = Inr (Result pol vd)"
  shows "map fst vd = rev (remdups (rev states))
       \<and> map fst pol = rev (remdups (rev states))
       \<and> snd ` set pol \<subseteq> set actions"
proof -
  from assms obtain n l l' where
    sw: "sweeps probs rewards discount actions states (nat n)
           \<lparr>val_dict = zero_dict states, val_action = [], calls = []\<rparr> = Inr l" and
    pl: "policy_loop probs rewards discount actions states l [] = Inr (l', pol)" and
    vd: "vd = val_dict l'"
    by (rule value_iteration_Result)
  have inv: "loop_inv actions states l"
    using sweeps_inv [OF sw loop_inv_init] .
  note res = policy_loop_result [OF pl inv]
  have keys_vd: "map fst vd = rev (remdups (rev states))"
    using res inv by (simp add: vd loop_inv_def key_order_first_occurrences)
  have keys_pol: "map fst pol = key_order [] states"
    using res by simp
  have "snd p \<in> set actions" if "p \<in> set pol" for p
  proof -
    have "distinct (map fst pol)" by (simp add: keys_pol distinct_key_order)
    with that have "map_of pol (fst p) = Some (snd p)" by simp
    moreover have "fst p \<in> set states"
      using that keys_pol by (metis image_eqI list.set_map set_key_order sup_bot_left empty_set)
    ultimately have "List.find (\<lambda>a. \<forall>b\<in>set actions.
        projr (q_value probs rewards discount (val_dict l) (fst p) b)
          \<le> projr (q_value probs rewards discount (val_dict l) (fst p) a)) actions
        = Some (snd p)"
      using res by simp
    then show ?thesis by (auto simp: find_Some_iff)
  qed
  with keys_vd keys_pol show ?thesis
    by (auto simp: key_order_first_occurrences)
qed

theorem result_keys_witness:
  "map fst [(S0, 1::real), (S1, 1)] = rev (remdups (rev [S0, S1]))
   \<and> map fst [(S0, A0), (S1, A0)] = rev (remdups (rev [S0, S1]))
   \<and> snd ` set [(S0, A0), (S1, A0)] \<subseteq> set [A0]"
  by (rule result_keys [OF chain_horizon_1])

subsection \<open>Policy extraction\<close>

text \<open>
  Claim C7. In the returned policy every state is assigned the first action, in the order
  of \<open>actions\<close>, whose q-value under the returned value function is maximal: among several
  actions with the same maximal q-value the earliest wins.
\<close>

theorem first_maximal_action:
  assumes "outcome (value_iteration states actions probs rewards horizon discount)
             = Inr (Result pol vd)"
    and "s \<in> set states"
  shows "\<exists>q a. (\<forall>b\<in>set actions. q_value probs rewards discount vd s b = Inr (q b))
             \<and> map_of pol s = Some a
             \<and> List.find (\<lambda>a. \<forall>b\<in>set actions. q b \<le> q a) actions = Some a"
proof -
  from assms(1) obtain n l l' where
    sw: "sweeps probs rewards discount actions states (nat n)
           \<lparr>val_dict = zero_dict states, val_action = [], calls = []\<rparr> = Inr l" and
    pl: "policy_loop probs rewards discount actions states l [] = Inr (l', pol)" and
    vd: "vd = val_dict l'"
    by (rule value_iteration_Result)
  have inv: "loop_inv actions states l"
    using sweeps_inv [OF sw loop_inv_init] .
  note res = policy_loop_result [OF pl inv]
  have vd': "val_dict l = vd" using res vd by simp
  let ?q = "\<lambda>b. projr (q_value probs rewards discount vd s b)"
  have ok: "\<forall>b\<in>set actions. q_value probs rewards discount vd s b = Inr (?q b)"
    using res assms(2) unfolding vd' by (metis sum.collapse(2))
  have find: "map_of pol s = List.find (\<lambda>a. \<forall>b\<in>set actions. ?q b \<le> ?q a) actions"
    using res assms(2) unfolding vd' by simp
  have "s \<in> set (map fst pol)"
    using res assms(2) by simp
  then obtain a where "map_of pol s = Some a"
    by (metis map_of_eq_None_iff not_Some_eq list.set_map)
  with ok find show ?thesis by metis
qed

theorem first_maximal_action_witness:
  "\<exists>q a. (\<forall>b\<in>set [Right, Left].
             q_value tie_probs tie_rewards 1 [(S0, 1), (S1, 5/2)] S0 b = Inr (q b))
       \<and> map_of [(S0, Right), (S1, Left)] S0 = Some a
       \<and> List.find (\<lambda>a. \<forall>b\<in>set [Right, Left]. q b \<le> q a) [Right, Left] = Some a"
  by (rule first_maximal_action [OF tie_horizon_1]) simp

subsection \<open>Horizon zero\<close>

lemma py_sum_zero: "\<forall>x\<in>set xs. x = 0 \<Longrightarrow> py_sum xs = 0"
  unfolding py_sum_def by (induction xs) auto

lemma q_value_zero_dict:
  assumes "length (P s a) = card (set S)"
  shows "q_value P R d (zero_dict S) s a = Inr (R s a)"
proof -
  have len: "length (map snd (zero_dict S)) = length (P s a)"
    using assms by (simp add: zero_dict_eq length_key_order)
  have "\<forall>x\<in>set (map2 (*) (P s a) (map snd (zero_dict S))). x = 0"
    by (auto simp: zero_dict_eq dest!: set_zip_rightD)
  then have "py_sum (map2 (*) (P s a) (map snd (zero_dict S))) = 0"
    by (rule py_sum_zero)
  then show ?thesis
    using len by (simp add: q_value_def broadcast_mul_def)
qed

lemma fold_update_nonempty: "A \<noteq> [] \<Longrightarrow> fold (\<lambda>a. AList.update a (f a)) A d \<noteq> []"
proof
  assume "A \<noteq> []" and "fold (\<lambda>a. AList.update a (f a)) A d = []"
  then have "map fst (fold (\<lambda>a. AList.update a (f a)) A d) = []" by simp
  then have "key_order (map fst d) A = []" by (simp only: keys_fold_update)
  from arg_cong [OF this, of set] have "set A = {}" by simp
  with \<open>A \<noteq> []\<close> show False by simp
qed

lemma policy_loop_succeeds:
  assumes "\<forall>s\<in>set S'. \<forall>a\<in>set A. \<not> isl (q_value P R d (val_dict l) s a)" and "A \<noteq> []"
  shows "\<exists>l' pol'. policy_loop P R d A S' l pol = Inr (l', pol')"
  using assms
proof (induction S' arbitrary: l pol)
  case Nil
  show ?case by simp
next
  case (Cons s S')
  let ?l1 = "l\<lparr>val_action := fold (\<lambda>a. AList.update a (projr (q_value P R d (val_dict l) s a))) A
                      (val_action l),
               calls := calls l @ concat (map (\<lambda>a. [RewardsCall s a, ProbsCall s a]) A)\<rparr>"
  have l1: "action_loop P R d s A l = Inr ?l1"
    using Cons.prems(1) by (simp add: action_loop_char)
  have "val_action ?l1 \<noteq> []"
    using fold_update_nonempty [OF Cons.prems(2)] by simp
  then obtain a where a: "py_max_key (val_action ?l1) = Inr a"
    by (cases "val_action ?l1") auto
  have "\<forall>s\<in>set S'. \<forall>a\<in>set A. \<not> isl (q_value P R d (val_dict ?l1) s a)"
    using Cons.prems(1) by simp
  from Cons.IH [OF this Cons.prems(2), of "AList.update s a pol"]
  show ?case using l1 a by simp
qed


text \<open>
  Claim C6. With horizon 0, a discount in \<open>[0, 1]\<close>, at least one action and transition
  vectors of the right length, the function returns the value function that maps every
  state to 0 and a policy that maps every state to the first action with maximal immediate
  reward.
\<close>

theorem horizon_zero:
  assumes "0 \<le> discount" and "discount \<le> 1" and "actions \<noteq> []"
    and "\<forall>s\<in>set states. \<forall>a\<in>set actions. length (probs s a) = card (set states)"
  shows "\<exists>pol. outcome (value_iteration states actions probs rewards (PyInt 0) discount)
                 = Inr (Result pol (map (\<lambda>s. (s, 0)) (rev (remdups (rev states)))))
             \<and> map fst pol = rev (remdups (rev states))
             \<and> (\<forall>s\<in>set states. map_of pol s =
                   List.find (\<lambda>a. \<forall>b\<in>set actions. rewards s b \<le> rewards s a) actions)"
proof -
  let ?l = "\<lparr>val_dict = zero_dict states, val_action = [], calls = []\<rparr>"
  have q: "\<forall>s\<in>set states. \<forall>a\<in>set actions.
             q_value probs rewards discount (val_dict ?l) s a = Inr (rewards s a)"
    using assms(4) by (simp add: q_value_zero_dict)
  then have "\<forall>s\<in>set states. \<forall>a\<in>set actions.
             \<not> isl (q_value probs rewards discount (val_dict ?l) s a)"
    by simp
  from policy_loop_succeeds [OF this assms(3)] obtain l' pol where
    pl: "policy_loop probs rewards discount actions states ?l [] = Inr (l', pol)"
    by blast
  note res = policy_loop_result [OF pl loop_inv_init]
  have out: "outcome (value_iteration states actions probs rewards (PyInt 0) discount)
      = Inr (Result pol (map (\<lambda>s. (s, 0)) (rev (remdups (rev states)))))"
    using assms(1,2) pl res
    by (simp add: outcome_def value_iteration_def zero_dict_eq key_order_first_occurrences)
  have keys: "map fst pol = rev (remdups (rev states))"
    using res by (simp add: key_order_first_occurrences)
  have "map_of pol s = List.find (\<lambda>a. \<forall>b\<in>set actions. rewards s b \<le> rewards s a) actions"
    if "s \<in> set states" for s
  proof -
    have "map_of pol s = List.find (\<lambda>a. \<forall>b\<in>set actions.
            projr (q_value probs rewards discount (val_dict ?l) s b)
              \<le> projr (q_value probs rewards discount (val_dict ?l) s a)) actions"
      using res that by simp
    moreover have "List.find (\<lambda>a. \<forall>b\<in>set actions.
            projr (q_value probs rewards discount (val_dict ?l) s b)
              \<le> projr (q_value probs rewards discount (val_dict ?l) s a)) actions
        = List.find (\<lambda>a. \<forall>b\<in>set actions. rewards s b \<le> rewards s a) actions"
      using q that by (intro find_cong) auto
    ultimately show ?thesis by simp
  qed
  with out keys show ?thesis by blast
qed

theorem horizon_zero_witness:
  "\<exists>pol. outcome (value_iteration [S0, S1] [Right, Left] tie_probs tie_rewards (PyInt 0) 1)
            = Inr (Result pol (map (\<lambda>s. (s, 0)) (rev (remdups (rev [S0, S1])))))
        \<and> map fst pol = rev (remdups (rev [S0, S1]))
        \<and> (\<forall>s\<in>set [S0, S1]. map_of pol s =
              List.find (\<lambda>a. \<forall>b\<in>set [Right, Left]. tie_rewards s b \<le> tie_rewards s a)
                [Right, Left])"
  by (rule horizon_zero) simp_all

subsection \<open>Transition vectors that break the contract\<close>

text \<open>
  Claim C3, as stated, fails: a transition vector whose entries sum to one half is used as
  it is, and the function returns a policy and a value function.
\<close>

theorem unnormalised_counterexample:
  "outcome (value_iteration [S0, S1] [A0] half_probs chain_rewards (PyInt 1) 1)
     = Inr (Result [(S0, A0), (S1, A0)] [(S0, 1), (S1, 1/4)])"
  by (simp add: eval_simps)

lemma q_value_bad_length:
  "length (P s a) \<noteq> length vd \<Longrightarrow> length (P s a) \<noteq> 1 \<Longrightarrow> length vd \<noteq> 1 \<Longrightarrow>
   q_value P R d vd s a = Inl ValueError"
  by (simp add: q_value_def broadcast_mul_def)

lemma action_loop_exception: "action_loop P R d s A l = Inl e \<Longrightarrow> e = ValueError"
  by (simp add: action_loop_char split: if_splits)

lemma py_max_exception: "py_max xs = Inl e \<Longrightarrow> e = ValueError"
  by (cases xs) auto

lemma py_max_key_exception: "py_max_key D = Inl e \<Longrightarrow> e = ValueError"
  by (cases D) auto

lemma state_loop_exception: "state_loop P R d A S l = Inl e \<Longrightarrow> e = ValueError"
  by (induction S arbitrary: l)
     (auto split: sum.splits dest: action_loop_exception py_max_exception)

lemma sweeps_exception: "sweeps P R d A S n l = Inl e \<Longrightarrow> e = ValueError"
  by (induction n arbitrary: l) (auto split: sum.splits dest: state_loop_exception)

lemma policy_loop_exception: "policy_loop P R d A S l pol = Inl e \<Longrightarrow> e = ValueError"
  by (induction S arbitrary: l pol)
     (auto split: sum.splits dest: action_loop_exception py_max_key_exception)


text \<open>
  Claim C3, amended. With a valid discount and a non-negative int horizon: when for some
  state and action of the input the transition vector has a length that is neither the
  number of states nor one, and there is more than one state, the multiplication with the
  values raises \<^verbatim>\<open>ValueError\<close> and nothing is returned. The entries of a vector are not
  checked.
\<close>

theorem bad_length_raises:
  assumes "0 \<le> discount" and "discount \<le> 1" and "0 \<le> n"
    and "s \<in> set states" and "a \<in> set actions"
    and "length (probs s a) \<noteq> card (set states)"
    and "length (probs s a) \<noteq> 1" and "card (set states) \<noteq> 1"
  shows "value_iteration states actions probs rewards (PyInt n) discount = Inl ValueError"
proof -
  let ?l0 = "\<lparr>val_dict = zero_dict states, val_action = [], calls = []\<rparr>"
  let ?sw = "sweeps probs rewards discount actions states (nat n) ?l0"
  have vi: "value_iteration states actions probs rewards (PyInt n) discount =
      (case ?sw of Inl e \<Rightarrow> Inl e
       | Inr l \<Rightarrow> (case policy_loop probs rewards discount actions states l [] of
            Inl e \<Rightarrow> Inl e
          | Inr (l', pol) \<Rightarrow> Inr (Result pol (val_dict l'), calls l')))"
    using assms(1-3) by (simp add: value_iteration_def)
  show ?thesis
  proof (cases ?sw)
    case (Inl e)
    with sweeps_exception [OF Inl] vi show ?thesis by simp
  next
    case (Inr l)
    have inv: "loop_inv actions states l"
      using sweeps_inv [OF Inr loop_inv_init] .
    then have "length (val_dict l) = card (set states)"
      using length_key_order [of states] by (metis loop_inv_def length_map)
    with assms(6-8) have bad: "q_value probs rewards discount (val_dict l) s a = Inl ValueError"
      by (intro q_value_bad_length) simp_all
    show ?thesis
    proof (cases "policy_loop probs rewards discount actions states l []")
      case (Inl e)
      with policy_loop_exception [OF Inl] vi Inr show ?thesis by simp
    next
      case (Inr r)
      obtain l' pol where r: "r = (l', pol)" by (cases r)
      from policy_loop_result [OF Inr [unfolded r] inv] assms(4,5)
      have "\<not> isl (q_value probs rewards discount (val_dict l) s a)" by blast
      with bad show ?thesis by simp
    qed
  qed
qed

theorem bad_length_raises_witness:
  "value_iteration [S0, S1] [A0] (\<lambda>s a. [1/3, 1/3, 1/3]) chain_rewards (PyInt 2) 1
     = Inl ValueError"
  by (rule bad_length_raises [where s = S0 and a = A0]) simp_all

subsection \<open>One state, one action\<close>

lemma single_val_action:
  "loop_inv [a] [s] l \<Longrightarrow> AList.update a q (val_action l) = [(a, q)]"
  by (cases "val_action l") (auto simp: loop_inv_def)

lemma single_state_loop:
  assumes "val_dict l = [(s, v)]" and "loop_inv [a] [s] l"
  shows "\<exists>l'. state_loop (\<lambda>s a. [1]) (\<lambda>s a. r) d [a] [s] l = Inr l'
            \<and> val_dict l' = [(s, r + d * v)] \<and> loop_inv [a] [s] l'"
proof -
  have "\<exists>l'. state_loop (\<lambda>s a. [1]) (\<lambda>s a. r) d [a] [s] l = Inr l'
            \<and> val_dict l' = [(s, r + d * v)]"
    using assms by (simp add: q_value_def broadcast_mul_def py_sum_def single_val_action)
  then obtain l' where l': "state_loop (\<lambda>s a. [1]) (\<lambda>s a. r) d [a] [s] l = Inr l'"
    "val_dict l' = [(s, r + d * v)]" by blast
  from state_loop_inv [OF l'(1) _ assms(2)] have "loop_inv [a] [s] l'" by simp
  with l' show ?thesis by blast
qed

lemma single_sweeps:
  assumes "val_dict l = [(s, 50 * (1 - (9/10) ^ k))]" and "loop_inv [a] [s] l"
  shows "\<exists>l'. sweeps (\<lambda>s a. [1]) (\<lambda>s a. 5) (9/10) [a] [s] n l = Inr l'
            \<and> val_dict l' = [(s, 50 * (1 - (9/10) ^ (k + n)))] \<and> loop_inv [a] [s] l'"
  using assms
proof (induction n arbitrary: l k)
  case 0
  then show ?case by simp
next
  case (Suc n)
  from single_state_loop [OF Suc.prems, of 5 "9/10"] obtain l1 where
    l1: "state_loop (\<lambda>s a. [1]) (\<lambda>s a. 5) (9/10) [a] [s] l = Inr l1"
    "val_dict l1 = [(s, 5 + 9/10 * (50 * (1 - (9/10) ^ k)))]" "loop_inv [a] [s] l1"
    by blast
  have "5 + 9/10 * (50 * (1 - (9/10) ^ k)) = 50 * (1 - (9/10 :: real) ^ (Suc k))"
    by (simp add: algebra_simps)
  with l1 have "val_dict l1 = [(s, 50 * (1 - (9/10) ^ (Suc k)))]" by simp
  from Suc.IH [OF this l1(3)] l1(1) show ?case by simp
qed

lemma single_policy_loop:
  assumes "val_dict l = [(s, v)]" and "loop_inv [a] [s] l"
  shows "\<exists>l'. policy_loop (\<lambda>s a. [1]) (\<lambda>s a. r) d [a] [s] l [] = Inr (l', [(s, a)])
            \<and> val_dict l' = [(s, v)]"
  using assms by (simp add: q_value_def broadcast_mul_def py_sum_def single_val_action)

lemma single_state_outcome:
  "outcome (value_iteration [s] [a] (\<lambda>s a. [1]) (\<lambda>s a. 5) (PyInt (int n)) (9/10))
     = Inr (Result [(s, a)] [(s, 50 * (1 - (9/10) ^ n))])"
proof -
  let ?l0 = "\<lparr>val_dict = zero_dict [s], val_action = [], calls = []\<rparr> :: ('a, 'b) locals"
  have "val_dict ?l0 = [(s, 50 * (1 - (9/10) ^ 0))]" by (simp add: zero_dict_def)
  from single_sweeps [OF this loop_inv_init, of a n] obtain l where
    l: "sweeps (\<lambda>s a. [1]) (\<lambda>s a. 5) (9/10) [a] [s] n ?l0 = Inr l"
    "val_dict l = [(s, 50 * (1 - (9/10) ^ n))]" "loop_inv [a] [s] l"
    by auto
  from single_policy_loop [OF l(2,3), of 5 "9/10"] obtain l' where
    "policy_loop (\<lambda>s a. [1]) (\<lambda>s a. 5) (9/10) [a] [s] l [] = Inr (l', [(s, a)])"
    "val_dict l' = [(s, 50 * (1 - (9/10) ^ n))]"
    by blast
  with l(1) show ?thesis
    by (simp add: outcome_def value_iteration_def)
qed

lemma gap_bounds: "1/1000 < 50 - 50 * (1 - (9/10 :: real) ^ 100)"
  "50 - 50 * (1 - (9/10 :: real) ^ 100) < 14/10000"
  by (simp_all add: power_divide)


text \<open>
  Claim C9, as stated, fails for every tolerance up to \<open>1/1000\<close>: after 100 sweeps the value
  of the only state is \<open>50 * (1 - (9/10)^100)\<close>, further than \<open>1/1000\<close> from 50.
\<close>

theorem single_state_counterexample:
  "outcome (value_iteration [S0] [A0] (\<lambda>s a. [1]) (\<lambda>s a. 5) (PyInt 100) (9/10))
     = Inr (Result [(S0, A0)] [(S0, 50 * (1 - (9/10) ^ 100))])
   \<and> \<not> \<bar>50 * (1 - (9/10) ^ 100) - (50 :: real)\<bar> \<le> 1/1000"
  using single_state_outcome [of S0 A0 100] gap_bounds by simp

text \<open>
  Claim C9, amended. For one state and one action with reward 5, transition vector \<open>[1]\<close>,
  discount \<open>9/10\<close> and horizon 100, the function returns the policy that maps the state to
  the action and the value \<open>50 * (1 - (9/10)^100)\<close>, which lies between \<open>0.0010\<close> and
  \<open>0.0014\<close> below 50.
\<close>

theorem single_state_value:
  "outcome (value_iteration [s] [a] (\<lambda>s a. [1]) (\<lambda>s a. 5) (PyInt 100) (9/10))
     = Inr (Result [(s, a)] [(s, 50 * (1 - (9/10) ^ 100))])
   \<and> 1/1000 < 50 - 50 * (1 - (9/10 :: real) ^ 100)
   \<and> 50 - 50 * (1 - (9/10 :: real) ^ 100) < 14/10000"
  using single_state_outcome [of s a 100] gap_bounds by simp

end
